theory Spec2Isabelle
  imports Complex_Main "HOL-Library.Word"
begin

unbundle bit_operations_syntax

section \<open>JavaScript values\<close>

text \<open>
  The values the modelled functions inspect. Numbers are the integer-valued ones; an
  object is the list of its own data properties, in insertion order.
\<close>

datatype jsval =
    JUndefined
  | JNull
  | JBool bool
  | JNum int
  | JStr string
  | JObj "(string \<times> jsval) list"

text \<open>The coercion to boolean that \<open>if (v)\<close>, \<open>!v\<close>, \<open>v || w\<close> and \<open>v ? a : b\<close> apply.\<close>

fun truthy :: "jsval \<Rightarrow> bool" where
  "truthy JUndefined = False"
| "truthy JNull = False"
| "truthy (JBool b) = b"
| "truthy (JNum n) = (n \<noteq> 0)"
| "truthy (JStr s) = (s \<noteq> [])"
| "truthy (JObj ps) = True"

text \<open>\<open>a || b\<close> on values.\<close>

definition js_or :: "jsval \<Rightarrow> jsval \<Rightarrow> jsval" where
  "js_or a b = (if truthy a then a else b)"

text \<open>
  \<open>obj[key]\<close> for a truthy \<open>obj\<close>: the own property of an object, \<open>undefined\<close> when
  it has none. Properties inherited from prototypes and the wrapper properties of
  primitives are outside the model.
\<close>

fun js_get :: "jsval \<Rightarrow> string \<Rightarrow> jsval" where
  "js_get (JObj ps) key = (case map_of ps key of Some v \<Rightarrow> v | None \<Rightarrow> JUndefined)"
| "js_get v key = JUndefined"

section \<open>Strings\<close>

text \<open>\<open>String.prototype.split\<close> with a one-character separator.\<close>

fun split_on :: "char \<Rightarrow> string \<Rightarrow> string list" where
  "split_on sep [] = [[]]"
| "split_on sep (c # cs) =
     (if c = sep then [] # split_on sep cs
      else (case split_on sep cs of
              [] \<Rightarrow> [[c]]
            | p # ps \<Rightarrow> (c # p) # ps))"

text \<open>\<open>Array.prototype.join\<close> with a one-character separator, to characterise the split.\<close>

fun join_with :: "char \<Rightarrow> string list \<Rightarrow> string" where
  "join_with sep [] = []"
| "join_with sep [p] = p"
| "join_with sep (p # q # ps) = p @ sep # join_with sep (q # ps)"

text \<open>\<open>String.prototype.toLowerCase\<close> on the ASCII letters.\<close>

definition lower_char :: "char \<Rightarrow> char" where
  "lower_char c =
     (let n = (of_char c :: nat)
      in if 65 \<le> n \<and> n \<le> 90 then char_of (n + 32) else c)"

definition toLowerCase :: "string \<Rightarrow> string" where
  "toLowerCase s = map lower_char s"

section \<open>config.js\<close>

text \<open>
  \<open>process.env\<close> maps a variable name to its value, \<open>None\<close> for \<open>undefined\<close>.
  An unset variable and the empty string are both falsy.
\<close>

type_synonym environ = "string \<Rightarrow> string option"

text \<open>\<open>(process.env.X || '').toLowerCase() === 'true'\<close>\<close>

definition flag_or_empty :: "string option \<Rightarrow> bool" where
  "flag_or_empty v =
     (toLowerCase (case v of None \<Rightarrow> [] | Some s \<Rightarrow> if s \<noteq> [] then s else []) = ''true'')"

text \<open>\<open>process.env.X ? (process.env.X).toLowerCase() === 'true' : d\<close>\<close>

definition flag_default :: "bool \<Rightarrow> string option \<Rightarrow> bool" where
  "flag_default d v =
     (case v of
        None \<Rightarrow> d
      | Some s \<Rightarrow> if s \<noteq> [] then toLowerCase s = ''true'' else d)"

text \<open>
  The exported constants that the modelled code reads. The numeric limits
  (\<open>maxAttachmentSize\<close>, \<open>rateLimitMax\<close>, \<open>rateLimitWindowMs\<close>) and the browser settings
  are read by no modelled function and are left out.
\<close>

record config =
  servicePort :: jsval
  globalApiKey :: jsval
  baseWebhookURL :: jsval
  setMessagesAsSeen :: bool
  disabledCallbacks :: "string list"
  recoverSessions :: bool
  enableWebHook :: bool
  enableWebSocket :: bool
  autoStartSessions :: bool

definition env_val :: "string option \<Rightarrow> jsval" where
  "env_val v = (case v of None \<Rightarrow> JUndefined | Some s \<Rightarrow> JStr s)"

definition load_config :: "environ \<Rightarrow> config" where
  "load_config env =
     \<lparr> servicePort = js_or (env_val (env ''PORT'')) (JNum 3000),
       globalApiKey = env_val (env ''API_KEY''),
       baseWebhookURL = env_val (env ''BASE_WEBHOOK_URL''),
       setMessagesAsSeen = flag_or_empty (env ''SET_MESSAGES_AS_SEEN''),
       disabledCallbacks =
         (case env ''DISABLED_CALLBACKS'' of
            None \<Rightarrow> []
          | Some s \<Rightarrow> if s \<noteq> [] then split_on (CHR ''|'') s else []),
       recoverSessions = flag_or_empty (env ''RECOVER_SESSIONS''),
       enableWebHook = flag_default True (env ''ENABLE_WEBHOOK''),
       enableWebSocket = flag_default False (env ''ENABLE_WEBSOCKET''),
       autoStartSessions = flag_default True (env ''AUTO_START_SESSIONS'') \<rparr>"

section \<open>utils.js\<close>

subsection \<open>isEventEnabled\<close>

text \<open>\<open>Array.prototype.includes\<close>: a linear search, on strings by equality.\<close>

fun arr_includes :: "'a list \<Rightarrow> 'a \<Rightarrow> bool" where
  "arr_includes [] x = False"
| "arr_includes (y # ys) x = (if y = x then True else arr_includes ys x)"

text \<open>\<open>!disabledCallbacks.includes(event)\<close>; the module constant is a parameter.\<close>

definition isEventEnabled :: "config \<Rightarrow> string \<Rightarrow> bool" where
  "isEventEnabled cfg event = (\<not> arr_includes (disabledCallbacks cfg) event)"

subsection \<open>Logging\<close>

text \<open>
  A value thrown or used as a rejection reason: an \<open>Error\<close> with its message and
  its stack trace.
\<close>

datatype js_error = JsError (message: string) (stack: string)

text \<open>
  One call of the logger: the level, the merging object (\<open>undefined\<close> when the call
  has none), the error passed as \<open>err\<close> or as first argument, and the message. The logger
  appends to the log and returns.
\<close>

datatype log_level = LDebug | LInfo | LError

record log_entry =
  le_level :: log_level
  le_fields :: jsval
  le_err :: "js_error option"
  le_msg :: string

text \<open>Decimal digits of a number, for template literals.\<close>

fun digits :: "nat \<Rightarrow> string" where
  "digits n =
     (if n < 10 then [char_of (48 + n)]
      else digits (n div 10) @ [char_of (48 + n mod 10)])"

declare digits.simps [simp del]

text \<open>The string a template literal \<open>`${v}`\<close> inserts.\<close>

fun js_to_string :: "jsval \<Rightarrow> string" where
  "js_to_string JUndefined = ''undefined''"
| "js_to_string JNull = ''null''"
| "js_to_string (JBool b) = (if b then ''true'' else ''false'')"
| "js_to_string (JNum n) = (if n < 0 then CHR ''-'' # digits (nat (- n)) else digits (nat n))"
| "js_to_string (JStr s) = s"
| "js_to_string (JObj ps) = ''[object Object]''"

subsection \<open>Promises\<close>

text \<open>
  A settled promise. A reaction passed to \<open>then\<close> or \<open>catch\<close> runs on the state and
  either returns (\<open>Inr\<close>) or throws (\<open>Inl\<close>); the promise that \<open>then\<close> or \<open>catch\<close>
  returns is fulfilled in the first case and rejected in the second.
\<close>

datatype 'a settled = Fulfilled 'a | Rejected js_error

definition promise_then ::
  "'a settled \<Rightarrow> ('a \<Rightarrow> 's \<Rightarrow> (js_error + 'b) \<times> 's) \<Rightarrow> 's \<Rightarrow> 'b settled \<times> 's" where
  "promise_then p f w =
     (case p of
        Rejected e \<Rightarrow> (Rejected e, w)
      | Fulfilled v \<Rightarrow>
          (case f v w of
             (Inr r, w') \<Rightarrow> (Fulfilled r, w')
           | (Inl e, w') \<Rightarrow> (Rejected e, w')))"

definition promise_catch ::
  "'a settled \<Rightarrow> (js_error \<Rightarrow> 's \<Rightarrow> (js_error + 'a) \<times> 's) \<Rightarrow> 's \<Rightarrow> 'a settled \<times> 's" where
  "promise_catch p g w =
     (case p of
        Fulfilled v \<Rightarrow> (Fulfilled v, w)
      | Rejected e \<Rightarrow>
          (case g e w of
             (Inr r, w') \<Rightarrow> (Fulfilled r, w')
           | (Inl e', w') \<Rightarrow> (Rejected e', w')))"

subsection \<open>triggerWebhook\<close>

text \<open>An \<open>axios.post(url, body, { headers })\<close> call.\<close>

record http_post =
  post_url :: string
  post_body :: jsval
  post_headers :: "(string \<times> jsval) list"

text \<open>
  What becomes of a request: no response at all, or a response with a status code.
  With its default \<open>validateStatus\<close> axios fulfils the promise of \<open>post\<close> for a status
  from 200 to 299 and rejects it for every other status and for a network failure.
\<close>

datatype http_outcome = NetworkError string | HttpStatus nat

definition axios_settle :: "http_outcome \<Rightarrow> nat settled" where
  "axios_settle out =
     (case out of
        NetworkError m \<Rightarrow> Rejected (JsError m [])
      | HttpStatus st \<Rightarrow>
          if 200 \<le> st \<and> st < 300 then Fulfilled st
          else Rejected (JsError (''Request failed with status code '' @ digits st) []))"

text \<open>The variables the reactions of one call close over.\<close>

record webhook_call =
  wc_webhookURL :: string
  wc_sessionId :: string
  wc_dataType :: string
  wc_data :: jsval

text \<open>
  The part of the process that \<open>triggerWebhook\<close> touches: the requests handed to
  axios, in order; the requests whose promise is still pending, each under its position
  in that order with the variables its reactions captured; and the log.
\<close>

record world =
  http_posts :: "http_post list"
  in_flight :: "(nat \<times> webhook_call) list"
  logs :: "log_entry list"

definition logger_log :: "log_entry \<Rightarrow> world \<Rightarrow> (js_error + unit) \<times> world" where
  "logger_log e w = (Inr (), w\<lparr>logs := logs w @ [e]\<rparr>)"

definition webhook_fields :: "webhook_call \<Rightarrow> (string \<times> jsval) list" where
  "webhook_fields c =
     [(''sessionId'', JStr (wc_sessionId c)),
      (''dataType'', JStr (wc_dataType c)),
      (''data'', js_or (wc_data c) (JStr []))]"

text \<open>The reaction passed to \<open>then\<close>.\<close>

definition on_sent :: "webhook_call \<Rightarrow> nat \<Rightarrow> world \<Rightarrow> (js_error + unit) \<times> world" where
  "on_sent c response =
     logger_log \<lparr> le_level = LDebug, le_fields = JObj (webhook_fields c), le_err = None,
                  le_msg = ''Webhook message sent to '' @ wc_webhookURL c \<rparr>"

text \<open>The reaction passed to \<open>catch\<close>.\<close>

definition on_failed :: "webhook_call \<Rightarrow> js_error \<Rightarrow> world \<Rightarrow> (js_error + unit) \<times> world" where
  "on_failed c error =
     logger_log \<lparr> le_level = LError, le_fields = JObj (webhook_fields c), le_err = Some error,
                  le_msg = ''Failed to send webhook message to '' @ wc_webhookURL c \<rparr>"

text \<open>
  \<open>axios.post(...).then(...).catch(...)\<close> once the promise of \<open>post\<close> has settled as
  \<open>p\<close>: the outcome of the promise at the end of the chain, and the state.
\<close>

definition webhook_chain :: "webhook_call \<Rightarrow> nat settled \<Rightarrow> world \<Rightarrow> unit settled \<times> world" where
  "webhook_chain c p w =
     (case promise_then p (on_sent c) w of
        (p1, w1) \<Rightarrow> promise_catch p1 (on_failed c) w1)"

definition webhook_post :: "config \<Rightarrow> webhook_call \<Rightarrow> http_post" where
  "webhook_post cfg c =
     \<lparr> post_url = wc_webhookURL c,
       post_body = JObj [(''dataType'', JStr (wc_dataType c)),
                         (''data'', wc_data c),
                         (''sessionId'', JStr (wc_sessionId c))],
       post_headers = [(''x-api-key'', globalApiKey cfg)] \<rparr>"

text \<open>
  The function itself: it hands the request to axios, registers the two reactions and
  returns \<open>undefined\<close>. Nothing is awaited, so the state it returns has the request in
  flight.
\<close>

definition triggerWebhook ::
  "config \<Rightarrow> string \<Rightarrow> string \<Rightarrow> string \<Rightarrow> jsval \<Rightarrow> world \<Rightarrow> world" where
  "triggerWebhook cfg webhookURL sessionId dataType data w =
     (if enableWebHook cfg then
        (let c = \<lparr> wc_webhookURL = webhookURL, wc_sessionId = sessionId,
                    wc_dataType = dataType, wc_data = data \<rparr>
         in w\<lparr> http_posts := http_posts w @ [webhook_post cfg c],
                in_flight := in_flight w @ [(length (http_posts w), c)] \<rparr>)
      else w)"

text \<open>
  The event loop completing request number \<open>i\<close> with outcome \<open>out\<close>: the reactions of
  that request run and the request is no longer in flight. A number that is not in flight
  has no reactions to run.
\<close>

definition http_settles :: "nat \<Rightarrow> http_outcome \<Rightarrow> world \<Rightarrow> unit settled option \<times> world" where
  "http_settles i out w =
     (case map_of (in_flight w) i of
        None \<Rightarrow> (None, w)
      | Some c \<Rightarrow>
          (case webhook_chain c (axios_settle out)
                  (w\<lparr>in_flight := filter (\<lambda>(j, _). j \<noteq> i) (in_flight w)\<rparr>) of
             (p, w') \<Rightarrow> (Some p, w')))"

text \<open>
  A run of the process as far as the dispatcher sees it: events handed to
  \<open>triggerWebhook\<close> and completions of earlier requests, in any order.
\<close>

datatype action =
    Emit string string string jsval
  | Settle nat http_outcome

fun step :: "config \<Rightarrow> action \<Rightarrow> world \<Rightarrow> world" where
  "step cfg (Emit webhookURL sessionId dataType data) w =
     triggerWebhook cfg webhookURL sessionId dataType data w"
| "step cfg (Settle i out) w = snd (http_settles i out w)"

fun run :: "config \<Rightarrow> action list \<Rightarrow> world \<Rightarrow> world" where
  "run cfg [] w = w"
| "run cfg (a # as) w = run cfg as (step cfg a w)"

text \<open>The requests a run asks for: one for each event, in the order of the events.\<close>

fun emitted :: "config \<Rightarrow> action list \<Rightarrow> http_post list" where
  "emitted cfg [] = []"
| "emitted cfg (Emit webhookURL sessionId dataType data # as) =
     webhook_post cfg \<lparr> wc_webhookURL = webhookURL, wc_sessionId = sessionId,
                         wc_dataType = dataType, wc_data = data \<rparr> # emitted cfg as"
| "emitted cfg (Settle i out # as) = emitted cfg as"

text \<open>
  A delivery fails when the request gets no response or a response whose status is
  not from 200 to 299.
\<close>

definition delivery_failed :: "http_outcome \<Rightarrow> bool" where
  "delivery_failed out =
     (case out of NetworkError m \<Rightarrow> True | HttpStatus st \<Rightarrow> st < 200 \<or> 300 \<le> st)"

text \<open>
  Every request in flight was handed to axios before: its number is a position in
  \<open>http_posts\<close>. This holds at start-up and after every step.
\<close>

definition ids_fresh :: "world \<Rightarrow> bool" where
  "ids_fresh w = list_all (\<lambda>(j, c). j < length (http_posts w)) (in_flight w)"

definition world0 :: world where
  "world0 = \<lparr> http_posts = [], in_flight = [], logs = [] \<rparr>"

text \<open>
  Moreover no two requests in flight have the same number. This too holds at start-up
  and after every step.
\<close>

definition well_formed :: "world \<Rightarrow> bool" where
  "well_formed w = (ids_fresh w \<and> distinct (map fst (in_flight w)))"

text \<open>The action is the completion of request \<open>i\<close>.\<close>

fun settles :: "nat \<Rightarrow> action \<Rightarrow> bool" where
  "settles i (Settle j out) = (j = i)"
| "settles i (Emit webhookURL sessionId dataType data) = False"

subsection \<open>sendErrorResponse\<close>

text \<open>
  The response an Express handler sends: the status and the JSON body. \<open>res.json\<close>
  alone sends status 200.
\<close>

record response =
  status :: nat
  body :: jsval


subsection \<open>waitForNestedObject\<close>

text \<open>
  The numbers that can be passed as \<open>maxWaitTime\<close> and \<open>interval\<close>: a finite number,
  an infinity, or \<open>NaN\<close>.
\<close>

datatype jsnum = Finite real | PosInfinity | NegInfinity | NaN

text \<open>
  \<open>elapsed > limit\<close> for an integer \<open>elapsed\<close>, a difference of two readings of
  \<open>Date.now()\<close>; every comparison with \<open>NaN\<close> is false.
\<close>

fun js_gt :: "int \<Rightarrow> jsnum \<Rightarrow> bool" where
  "js_gt e (Finite m) = (m < of_int e)"
| "js_gt e PosInfinity = False"
| "js_gt e NegInfinity = True"
| "js_gt e NaN = False"

text \<open>A parameter with a default value: the default stands in for an omitted argument.\<close>

definition or_default :: "'a \<Rightarrow> 'a option \<Rightarrow> 'a" where
  "or_default d v = (case v of None \<Rightarrow> d | Some x \<Rightarrow> x)"

text \<open>
  \<open>obj[key]\<close> is the engine's: besides the own properties of an object it finds the
  inherited ones (\<open>constructor\<close>) and those of the wrappers of primitives (\<open>length\<close> of
  a string). The read is a parameter of the model, \<open>get obj key\<close>; a function it
  returns is an object like any other.
\<close>

type_synonym getter = "jsval \<Rightarrow> string \<Rightarrow> jsval"

text \<open>
  \<open>nestedPath.split('.').reduce((obj, key) => obj ? obj[key] : undefined, rootObj)\<close>
\<close>

definition nested :: "getter \<Rightarrow> jsval \<Rightarrow> string \<Rightarrow> jsval" where
  "nested get rootObj nestedPath =
     foldl (\<lambda>obj key. if truthy obj then get obj key else JUndefined)
       rootObj (split_on (CHR ''.'') nestedPath)"

text \<open>
  The surroundings of the polling loop. Other code fills \<open>rootObj\<close> in while the loop
  waits: \<open>rootObj k\<close> is the object as poll number \<open>k\<close> finds it. \<open>setTimeout\<close> belongs to
  the runtime: \<open>timer delay k t\<close> is the reading of \<open>Date.now()\<close> when the callback
  scheduled by poll \<open>k\<close> at time \<open>t\<close> runs.
\<close>

type_synonym timer = "jsnum \<Rightarrow> nat \<Rightarrow> int \<Rightarrow> int"

text \<open>How a poll ended: its number, the settlement of the promise, and what it logged.\<close>

datatype wait_result =
  WaitResult (polls: nat) (outcome: "unit settled") (logged: "log_entry list")

definition timeout_error :: js_error where
  "timeout_error = JsError ''Timeout waiting for nested object'' []"

definition timeout_log :: log_entry where
  "timeout_log =
     \<lparr> le_level = LError, le_fields = JUndefined, le_err = None,
       le_msg = ''Timed out waiting for nested object'' \<rparr>"

text \<open>
  \<open>checkObject\<close>, run as poll \<open>k\<close> with \<open>Date.now()\<close> reading \<open>now\<close>. A loop that
  polls for ever has no result: \<open>None\<close> is the promise that stays pending.
\<close>

partial_function (option) checkObject ::
  "getter \<Rightarrow> (nat \<Rightarrow> jsval) \<Rightarrow> timer \<Rightarrow> string \<Rightarrow> int \<Rightarrow> jsnum \<Rightarrow> jsnum \<Rightarrow> nat \<Rightarrow> int
     \<Rightarrow> wait_result option"
where
  "checkObject get rootObj timer nestedPath start maxWaitTime interval k now =
     (if truthy (nested get (rootObj k) nestedPath) then
        Some (WaitResult k (Fulfilled ()) [])
      else if js_gt (now - start) maxWaitTime then
        Some (WaitResult k (Rejected timeout_error) [timeout_log])
      else
        checkObject get rootObj timer nestedPath start maxWaitTime interval (Suc k)
          (timer interval k now))"

declare checkObject.simps [code]

text \<open>
  The function. \<open>start\<close> is the reading of \<open>Date.now()\<close> at the call; the first poll
  runs at once and reads the clock again, as \<open>first\<close>.
\<close>

definition waitForNestedObject ::
  "getter \<Rightarrow> (nat \<Rightarrow> jsval) \<Rightarrow> timer \<Rightarrow> int \<Rightarrow> int \<Rightarrow> string \<Rightarrow> jsnum option \<Rightarrow> jsnum option
     \<Rightarrow> wait_result option" where
  "waitForNestedObject get rootObj timer start first nestedPath maxWaitTime interval =
     checkObject get rootObj timer nestedPath start
       (or_default (Finite 10000) maxWaitTime) (or_default (Finite 100) interval) 0 first"

text \<open>The reading of the clock at poll \<open>k\<close>, the first poll reading \<open>first\<close>.\<close>

fun poll_time :: "timer \<Rightarrow> jsnum \<Rightarrow> int \<Rightarrow> nat \<Rightarrow> int" where
  "poll_time timer interval first 0 = first"
| "poll_time timer interval first (Suc k) =
     timer interval k (poll_time timer interval first k)"

text \<open>
  The value at a path, the path given by its segments: walk down from the object, one
  property for each segment, and give \<open>undefined\<close> as soon as a step starts from a
  value that is not truthy.
\<close>

fun value_at :: "getter \<Rightarrow> jsval \<Rightarrow> string list \<Rightarrow> jsval" where
  "value_at get v [] = v"
| "value_at get v (key # keys) =
     (if truthy v then value_at get (get v key) keys else JUndefined)"

text \<open>
  The runtime keeps its promise: a scheduled callback runs, and the clock has moved on by
  then.
\<close>

definition advancing :: "timer \<Rightarrow> bool" where
  "advancing timer = (\<forall>interval k t. t < timer interval k t)"

text \<open>
  The delay Node gives a timer: the requested one, cut to whole milliseconds, when it
  is from 1 to \<open>2^31 - 1\<close>, and 1 otherwise. A punctual timer runs its callback exactly
  that much later.
\<close>

definition timer_delay :: "jsnum \<Rightarrow> int" where
  "timer_delay interval =
     (case interval of
        Finite i \<Rightarrow> if 1 \<le> i \<and> i \<le> 2147483647 then \<lfloor>i\<rfloor> else 1
      | _ \<Rightarrow> 1)"

definition punctual :: timer where
  "punctual interval k t = t + timer_delay interval"

text \<open>An object in which the awaited property never appears.\<close>

definition never_filled :: "nat \<Rightarrow> jsval" where
  "never_filled k = JObj [(''pupPage'', JNull)]"

text \<open>
  An object whose first property is there from the start and in which the awaited
  property appears at the third poll.
\<close>

definition filled_at_2 :: "nat \<Rightarrow> jsval" where
  "filled_at_2 k =
     (if k < 2 then JObj [(''pupPage'', JObj [])]
      else JObj [(''pupPage'', JObj [(''mainFrame'', JBool True)])])"

subsection \<open>decodeBase64\<close>

text \<open>
  \<open>Buffer.from(s, 'base64')\<close> belongs to Node. Its decoder reads the characters of
  both base64 alphabets as six-bit values, skips every other character, stops at the
  first \<open>=\<close>, and turns each group of four values into three bytes; a last group of
  three values gives two bytes, one of two values gives one byte, and a single value
  gives none.
\<close>

type_synonym byte = "8 word"

definition unbase64 :: "char \<Rightarrow> nat option" where
  "unbase64 c =
     (let n = (of_char c :: nat) in
      if 65 \<le> n \<and> n \<le> 90 then Some (n - 65)
      else if 97 \<le> n \<and> n \<le> 122 then Some (n - 71)
      else if 48 \<le> n \<and> n \<le> 57 then Some (n + 4)
      else if c = CHR ''+'' \<or> c = CHR ''-'' then Some 62
      else if c = CHR ''/'' \<or> c = CHR ''_'' then Some 63
      else None)"

fun sextets :: "string \<Rightarrow> nat list" where
  "sextets [] = []"
| "sextets (c # cs) =
     (if c = CHR ''='' then []
      else (case unbase64 c of
              None \<Rightarrow> sextets cs
            | Some v \<Rightarrow> v # sextets cs))"

text \<open>The three bytes of a group, from the pairs of adjacent values.\<close>

definition byte1 :: "nat \<Rightarrow> nat \<Rightarrow> byte" where
  "byte1 hi lo = push_bit 2 (of_nat hi AND 0x3F) OR drop_bit 4 (of_nat lo AND 0x30)"
definition byte2 :: "nat \<Rightarrow> nat \<Rightarrow> byte" where
  "byte2 hi lo = push_bit 4 (of_nat hi AND 0x0F) OR drop_bit 2 (of_nat lo AND 0x3C)"
definition byte3 :: "nat \<Rightarrow> nat \<Rightarrow> byte" where
  "byte3 hi lo = push_bit 6 (of_nat hi AND 0x03) OR (of_nat lo AND 0x3F)"

fun decode_groups :: "nat list \<Rightarrow> byte list" where
  "decode_groups (a # b # c # d # rest) =
     byte1 a b # byte2 b c # byte3 c d # decode_groups rest"
| "decode_groups [a, b, c] = [byte1 a b, byte2 b c]"
| "decode_groups [a, b] = [byte1 a b]"
| "decode_groups _ = []"

definition buffer_from_base64 :: "string \<Rightarrow> byte list" where
  "buffer_from_base64 s = decode_groups (sextets s)"


text \<open>\<open>xs.slice(i, j)\<close> for \<open>0 \<le> i \<le> j\<close>.\<close>

definition slice :: "'a list \<Rightarrow> nat \<Rightarrow> nat \<Rightarrow> 'a list" where
  "slice xs i j = take (j - i) (drop i xs)"

definition chunkSize :: nat where
  "chunkSize = 1024"

text \<open>
  The generator, as the list of the buffers it yields; \<open>decodeBase64_from i\<close> is the
  loop from index \<open>i\<close> on.
\<close>

function decodeBase64_from :: "nat \<Rightarrow> string \<Rightarrow> byte list list" where
  "decodeBase64_from i base64String =
     (if i < length base64String then
        buffer_from_base64 (slice base64String i (i + chunkSize))
          # decodeBase64_from (i + chunkSize) base64String
      else [])"
  by pat_completeness auto
termination
  by (relation "measure (\<lambda>(i, s). length s - i)") (auto simp: chunkSize_def)

declare decodeBase64_from.simps [simp del]

definition decodeBase64 :: "string \<Rightarrow> byte list list" where
  "decodeBase64 base64String = decodeBase64_from 0 base64String"

text \<open>
  A base64 string: characters of the alphabet, then padding only. Its length need not
  be a multiple of four.
\<close>

fun is_base64 :: "string \<Rightarrow> bool" where
  "is_base64 [] = True"
| "is_base64 (c # cs) =
     (if c = CHR ''='' then list_all (\<lambda>d. d = CHR ''='') cs
      else unbase64 c \<noteq> None \<and> is_base64 cs)"

section \<open>server.js\<close>

text \<open>What the start-up script does to the outside, in order.\<close>

datatype effect =
    Log log_entry
  | ProcessExit int
  | AppListen jsval
  | RestoreSessions
  | ServerOnUpgrade
  | SetMaxListeners int

text \<open>
  The callback passed to \<open>app.listen\<close>. Its second log entry carries the whole
  configuration under \<open>configuration\<close>; the contents are not spelled out here.
\<close>

definition listen_callback :: "config \<Rightarrow> effect list" where
  "listen_callback cfg =
     [Log \<lparr> le_level = LInfo, le_fields = JUndefined, le_err = None,
            le_msg = ''Server running on port '' @ js_to_string (servicePort cfg) \<rparr>,
      Log \<lparr> le_level = LDebug, le_fields = JObj [(''configuration'', JObj [])], le_err = None,
            le_msg = ''Service configuration'' \<rparr>]
     @ (if autoStartSessions cfg then
          [Log \<lparr> le_level = LInfo, le_fields = JUndefined, le_err = None,
                 le_msg = ''Starting all sessions'' \<rparr>,
           RestoreSessions]
        else [])"

text \<open>
  The script from top to bottom. \<open>process.exit\<close> ends the process, so nothing after it
  runs. Otherwise the statements of the script run, and the callback of \<open>app.listen\<close>
  runs once afterwards, when the server listens.
\<close>

definition server_main :: "config \<Rightarrow> effect list" where
  "server_main cfg =
     (if \<not> truthy (baseWebhookURL cfg) \<and> enableWebHook cfg then
        [Log \<lparr> le_level = LError, le_fields = JUndefined, le_err = None,
               le_msg = ''BASE_WEBHOOK_URL environment variable is not set. Exiting...'' \<rparr>,
         ProcessExit 1]
      else
        [AppListen (servicePort cfg)]
        @ (if enableWebSocket cfg then [ServerOnUpgrade] else [])
        @ [SetMaxListeners 0]
        @ listen_callback cfg)"

text \<open>The check at the top of the script: webhooks enabled and no base webhook URL.\<close>

definition exits_at_check :: "config \<Rightarrow> bool" where
  "exits_at_check cfg = (\<not> truthy (baseWebhookURL cfg) \<and> enableWebHook cfg)"

section \<open>The channel controller\<close>

subsection \<open>The driver and the request\<close>

text \<open>
  The operations of the messaging library that the handlers await: the lookup of a
  chat on the client, the methods of the chat, and \<open>MessageMedia.fromUrl\<close>.
\<close>

datatype driver_call =
    GetChatById jsval
  | ChatSendMessage jsval jsval
  | MediaFromUrl jsval jsval
  | ChatFetchMessages "jsval option"
  | ChatSendSeen
  | ChatMute
  | ChatUnmute
  | ChatSetSubject jsval
  | ChatAcceptChannelAdminInvite
  | ChatSendChannelAdminInvite jsval "jsval option"
  | ChatDemoteChannelAdmin jsval
  | ChatTransferChannelOwnership jsval "jsval option"
  | ChatRevokeChannelAdminInvite jsval
  | ChatGetSubscribers jsval
  | ChatDeleteChannel
  | ChatSetReactionSetting jsval
  | ChatSetDescription jsval
  | ChatSetProfilePicture jsval

text \<open>
  What a statement throws or a promise rejects with: an \<open>Error\<close>, or any other value
  (\<open>Promise.reject()\<close> rejects with \<open>undefined\<close>).
\<close>

datatype thrown = ErrorObj js_error | Value jsval

text \<open>
  A client of the library: each awaited operation either rejects or resolves with a
  value. \<open>sessions\<close> is the map from session ids to clients.
\<close>

type_synonym driver = "driver_call \<Rightarrow> thrown + jsval"



text \<open>
  A piece of a handler's \<open>try\<close> block: it throws or returns, and it has made some
  calls to the driver, in order.
\<close>

type_synonym 'a act = "(thrown + 'a) \<times> driver_call list"

definition pure_act :: "'a \<Rightarrow> 'a act" where
  "pure_act v = (Inr v, [])"

definition throw_act :: "thrown \<Rightarrow> 'a act" where
  "throw_act e = (Inl e, [])"




text \<open>
  The \<open>TypeError\<close>s the engine throws on its own, in the words of V8; \<open>undefined\<close> and
  \<open>null\<close> are the two values they are thrown for. Their stack traces are left empty.
\<close>

definition nullish_name :: "jsval \<Rightarrow> string" where
  "nullish_name v = (if v = JNull then ''null'' else ''undefined'')"

definition quoted :: "string \<Rightarrow> string" where
  "quoted s = CHR 0x27 # s @ [CHR 0x27]"

definition destructure_error :: "jsval \<Rightarrow> js_error" where
  "destructure_error v =
     JsError (''Cannot destructure property '' @ quoted ''chatId'' @ '' of ''
                @ quoted ''req.body'' @ '' as it is '' @ nullish_name v @ ''.'') []"



text \<open>
  \<open>const { chatId, ... } = req.body\<close>: it throws on \<open>undefined\<close> and \<open>null\<close>, and
  otherwise gives access to the properties. \<open>chatId\<close> is the first property in every
  handler.
\<close>

definition destructure :: "jsval \<Rightarrow> (string \<Rightarrow> jsval) act" where
  "destructure v =
     (case v of
        JUndefined \<Rightarrow> throw_act (ErrorObj (destructure_error v))
      | JNull \<Rightarrow> throw_act (ErrorObj (destructure_error v))
      | _ \<Rightarrow> pure_act (js_get v))"














subsection \<open>The handlers\<close>



















subsection \<open>What a response may look like\<close>












text \<open>
  A piece of a handler that passes on what the driver rejects with: when one of the
  calls it has made was rejected, it has thrown what that call was rejected with.
\<close>

definition reports :: "driver \<Rightarrow> 'a act \<Rightarrow> bool" where
  "reports client m = (\<forall>call \<in> set (snd m). \<forall>t. client call = Inl t \<longrightarrow> fst m = Inl t)"




subsection \<open>Example clients\<close>








section \<open>Properties\<close>

subsection \<open>Splitting and joining\<close>

lemma split_on_nonempty: "split_on sep s \<noteq> []"
  by (induction s) (auto split: list.splits)

lemma join_with_Cons:
  "ps \<noteq> [] \<Longrightarrow> join_with sep (p # ps) = p @ sep # join_with sep ps"
  by (cases ps) auto

lemma join_with_split_on: "join_with sep (split_on sep s) = s"
proof (induction s)
  case Nil
  show ?case by simp
next
  case (Cons c cs)
  show ?case
  proof (cases "c = sep")
    case True
    with Cons show ?thesis
      by (simp add: join_with_Cons split_on_nonempty)
  next
    case False
    obtain p ps where sp: "split_on sep cs = p # ps"
      using split_on_nonempty [of sep cs] by (cases "split_on sep cs") auto
    from Cons sp have "join_with sep (p # ps) = cs" by simp
    then have "join_with sep ((c # p) # ps) = c # cs"
      by (cases ps) auto
    with False sp show ?thesis by simp
  qed
qed

lemma split_on_sep_free: "p \<in> set (split_on sep s) \<Longrightarrow> sep \<notin> set p"
proof (induction s arbitrary: p)
  case Nil
  then show ?case by simp
next
  case (Cons c cs)
  show ?case
  proof (cases "c = sep")
    case True
    with Cons show ?thesis by auto
  next
    case False
    obtain q qs where sp: "split_on sep cs = q # qs"
      using split_on_nonempty [of sep cs] by (cases "split_on sep cs") auto
    with False Cons.prems have "p = c # q \<or> p \<in> set qs" by simp
    then show ?thesis
    proof
      assume "p = c # q"
      moreover have "sep \<notin> set q" using Cons.IH [of q] sp by simp
      ultimately show ?thesis using False by auto
    next
      assume "p \<in> set qs"
      then show ?thesis using Cons.IH [of p] sp by simp
    qed
  qed
qed

lemma split_on_join_with:
  "ps \<noteq> [] \<Longrightarrow> list_all (\<lambda>p. sep \<notin> set p) ps \<Longrightarrow> split_on sep (join_with sep ps) = ps"
proof (induction ps rule: join_with.induct)
  case (1 sep)
  then show ?case by simp
next
  case (2 sep p)
  then have "sep \<notin> set p" by simp
  then have "split_on sep p = [p]"
    by (induction p) auto
  then show ?case by simp
next
  case (3 sep p q ps)
  then have ih: "split_on sep (join_with sep (q # ps)) = q # ps" by simp
  from 3 have "sep \<notin> set p" by simp
  then have "split_on sep (p @ sep # join_with sep (q # ps)) = p # q # ps"
    using ih by (induction p) auto
  then show ?case by simp
qed

subsection \<open>The event filter\<close>

lemma arr_includes_set: "arr_includes xs x \<longleftrightarrow> x \<in> set xs"
  by (induction xs) auto

text \<open>
  C4. The event filter is set membership: an event type is enabled exactly when it is
  not among the configured suppressed types. The suppressed types are the pieces of
  DISABLED_CALLBACKS between the \<open>|\<close> characters; when the variable is unset or empty
  there are none, and every event type is enabled.
\<close>

theorem isEventEnabled_set_membership:
  "(isEventEnabled (load_config env) e \<longleftrightarrow> e \<notin> set (disabledCallbacks (load_config env)))
   \<and> (\<forall>s. env ''DISABLED_CALLBACKS'' = Some s \<and> s \<noteq> [] \<longrightarrow>
          disabledCallbacks (load_config env) = split_on (CHR ''|'') s)
   \<and> (env ''DISABLED_CALLBACKS'' = None \<or> env ''DISABLED_CALLBACKS'' = Some [] \<longrightarrow>
          disabledCallbacks (load_config env) = [] \<and> isEventEnabled (load_config env) e)"
  by (auto simp: isEventEnabled_def load_config_def arr_includes_set)

theorem isEventEnabled_set_membership_witness:
  "disabledCallbacks (load_config [''DISABLED_CALLBACKS'' \<mapsto> ''qr|message'']) = [''qr'', ''message'']
   \<and> \<not> isEventEnabled (load_config [''DISABLED_CALLBACKS'' \<mapsto> ''qr|message'']) ''message''
   \<and> isEventEnabled (load_config Map.empty) ''message''"
proof -
  let ?env = "[''DISABLED_CALLBACKS'' \<mapsto> ''qr|message''] :: environ"
  have set: "?env ''DISABLED_CALLBACKS'' = Some ''qr|message'' \<and> ''qr|message'' \<noteq> []"
    by simp
  have sp: "split_on (CHR ''|'') ''qr|message'' = [''qr'', ''message'']"
    by simp
  have unset: "(Map.empty :: environ) ''DISABLED_CALLBACKS'' = None"
    by simp
  from isEventEnabled_set_membership [of ?env "''message''"] set sp
  have a: "disabledCallbacks (load_config ?env) = [''qr'', ''message'']"
    and b: "\<not> isEventEnabled (load_config ?env) ''message''"
    by auto
  from isEventEnabled_set_membership [of Map.empty "''message''"] unset
  have c: "isEventEnabled (load_config Map.empty) ''message''"
    by blast
  from a b c show ?thesis by blast
qed

subsection \<open>The webhook dispatcher\<close>

text \<open>
  C1. A call of \<open>triggerWebhook\<close> hands axios at most one request, and exactly one when
  webhooks are enabled: a POST to the URL it was given, with the body
  \<open>{ dataType, data, sessionId }\<close> of the event and the single header \<open>x-api-key\<close>
  holding the configured API key.
\<close>

theorem triggerWebhook_post:
  "http_posts (triggerWebhook cfg webhookURL sessionId dataType data w) =
     http_posts w @
     (if enableWebHook cfg then
        [\<lparr> post_url = webhookURL,
            post_body = JObj [(''dataType'', JStr dataType), (''data'', data),
                              (''sessionId'', JStr sessionId)],
            post_headers = [(''x-api-key'', globalApiKey cfg)] \<rparr>]
      else [])"
  by (simp add: triggerWebhook_def webhook_post_def Let_def)

lemma axios_settle_failed:
  "delivery_failed out \<Longrightarrow> \<exists>e. axios_settle out = Rejected e"
  by (cases out) (auto simp: delivery_failed_def axios_settle_def)

lemma webhook_chain_rejected:
  "webhook_chain c (Rejected e) w =
     (Fulfilled (),
      w\<lparr>logs := logs w @
          [\<lparr> le_level = LError, le_fields = JObj (webhook_fields c), le_err = Some e,
             le_msg = ''Failed to send webhook message to '' @ wc_webhookURL c \<rparr>]\<rparr>)"
  by (simp add: webhook_chain_def promise_then_def promise_catch_def on_failed_def logger_log_def)

text \<open>Whatever becomes of the request, the promise at the end of the chain is fulfilled.\<close>

lemma webhook_chain_never_rejects:
  "fst (webhook_chain c p w) = Fulfilled ()"
  by (cases p) (simp_all add: webhook_chain_def promise_then_def promise_catch_def
       on_failed_def on_sent_def logger_log_def)

lemma http_posts_settles: "http_posts (snd (http_settles i out w)) = http_posts w"
  by (cases "axios_settle out")
     (auto simp: http_settles_def webhook_chain_def promise_then_def promise_catch_def
        on_sent_def on_failed_def logger_log_def split: option.splits)

lemma http_posts_run:
  "http_posts (run cfg acts w) =
     http_posts w @ (if enableWebHook cfg then emitted cfg acts else [])"
proof (induction acts arbitrary: w)
  case Nil
  show ?case by simp
next
  case (Cons a acts)
  show ?case
  proof (cases a)
    case (Emit u s d v)
    with Cons show ?thesis
      by (simp add: triggerWebhook_def Let_def)
  next
    case (Settle i out)
    with Cons show ?thesis
      by (simp add: http_posts_settles)
  qed
qed

text \<open>
  C3. \<open>triggerWebhook\<close> returns with the request still in flight and the log untouched:
  it has waited for nothing. In a run that mixes events and completions in any order,
  the requests made are exactly those of the events, in their order: whether, when and
  how earlier requests complete has no effect on them.
\<close>

theorem triggerWebhook_fire_and_forget:
  "in_flight (triggerWebhook cfg webhookURL sessionId dataType data w) =
     in_flight w @
     (if enableWebHook cfg then
        [(length (http_posts w),
          \<lparr> wc_webhookURL = webhookURL, wc_sessionId = sessionId,
            wc_dataType = dataType, wc_data = data \<rparr>)]
      else [])
   \<and> logs (triggerWebhook cfg webhookURL sessionId dataType data w) = logs w
   \<and> http_posts (run cfg acts w) =
       http_posts w @ (if enableWebHook cfg then emitted cfg acts else [])"
  by (simp add: http_posts_run) (simp add: triggerWebhook_def Let_def)

subsection \<open>Start-up\<close>

text \<open>
  With no variable set, session start-up is enabled by default, and so are webhooks;
  the script exits at its check and never calls \<open>restoreSessions\<close>. So the flag
  alone does not decide whether recovery runs.
\<close>

theorem restoreSessions_default_env_counterexample:
  "count_list (server_main (load_config Map.empty)) RestoreSessions
     \<noteq> (if autoStartSessions (load_config Map.empty) then 1 else 0)"
  by (simp add: load_config_def server_main_def flag_default_def env_val_def)

text \<open>
  C5, amended. When the script exits at its check, \<open>restoreSessions\<close> is never called.
  Otherwise the script calls \<open>app.listen\<close>, and \<open>restoreSessions\<close> is called exactly
  once, in the callback of \<open>app.listen\<close>, when \<open>autoStartSessions\<close> is true, and never
  when it is false. The flag \<open>recoverSessions\<close> plays no part.
\<close>

theorem restoreSessions_once:
  "count_list (server_main cfg) RestoreSessions =
     (if exits_at_check cfg then 0 else if autoStartSessions cfg then 1 else 0)
   \<and> (if exits_at_check cfg then server_main cfg = 
          [Log \<lparr> le_level = LError, le_fields = JUndefined, le_err = None,
               le_msg = ''BASE_WEBHOOK_URL environment variable is not set. Exiting...'' \<rparr>,
         ProcessExit 1]
      else server_main cfg =
         (AppListen (servicePort cfg) # (if enableWebSocket cfg then [ServerOnUpgrade] else [])
            @ [SetMaxListeners 0]) @ listen_callback cfg)
   \<and> count_list (listen_callback cfg) RestoreSessions = (if autoStartSessions cfg then 1 else 0)
   \<and> server_main (cfg\<lparr>recoverSessions := b\<rparr>) = server_main cfg"
  by (simp add: server_main_def exits_at_check_def listen_callback_def)

theorem restoreSessions_once_witness:
  "count_list (server_main (load_config [''BASE_WEBHOOK_URL'' \<mapsto> ''http://localhost/hook''])) RestoreSessions = 1
   \<and> count_list (server_main (load_config [''BASE_WEBHOOK_URL'' \<mapsto> ''http://localhost/hook'',
          ''AUTO_START_SESSIONS'' \<mapsto> ''FALSE'', ''RECOVER_SESSIONS'' \<mapsto> ''TRUE''])) RestoreSessions = 0
   \<and> count_list (server_main (load_config [''AUTO_START_SESSIONS'' \<mapsto> ''true''])) RestoreSessions = 0"
proof -
  let ?e1 = "[''BASE_WEBHOOK_URL'' \<mapsto> ''http://localhost/hook''] :: environ"
  let ?e2 = "[''BASE_WEBHOOK_URL'' \<mapsto> ''http://localhost/hook'',
              ''AUTO_START_SESSIONS'' \<mapsto> ''FALSE'', ''RECOVER_SESSIONS'' \<mapsto> ''TRUE''] :: environ"
  let ?e3 = "[''AUTO_START_SESSIONS'' \<mapsto> ''true''] :: environ"
  have 1: "\<not> exits_at_check (load_config ?e1) \<and> autoStartSessions (load_config ?e1)"
    by code_simp
  have 2: "\<not> exits_at_check (load_config ?e2) \<and> \<not> autoStartSessions (load_config ?e2)
           \<and> recoverSessions (load_config ?e2)"
    by code_simp
  have 3: "exits_at_check (load_config ?e3) \<and> autoStartSessions (load_config ?e3)"
    by code_simp
  from restoreSessions_once [of "load_config ?e1"] 1
  have a: "count_list (server_main (load_config ?e1)) RestoreSessions = 1" by simp
  from restoreSessions_once [of "load_config ?e2"] 2
  have b: "count_list (server_main (load_config ?e2)) RestoreSessions = 0" by simp
  from restoreSessions_once [of "load_config ?e3"] 3
  have c: "count_list (server_main (load_config ?e3)) RestoreSessions = 0" by simp
  from a b c show ?thesis by blast
qed

text \<open>
  C10. When webhooks are enabled and no base webhook URL is configured, the script logs
  an error and exits with code 1, and \<open>app.listen\<close> is never called. In every other
  configuration the first thing the script does is call \<open>app.listen\<close> on the configured
  port, and it never exits.
\<close>

theorem server_main_exit_or_listen:
  "(\<not> truthy (baseWebhookURL cfg) \<and> enableWebHook cfg \<longrightarrow>
      server_main cfg =
        [Log \<lparr> le_level = LError, le_fields = JUndefined, le_err = None,
               le_msg = ''BASE_WEBHOOK_URL environment variable is not set. Exiting...'' \<rparr>,
         ProcessExit 1]
      \<and> (\<forall>p. AppListen p \<notin> set (server_main cfg)))
   \<and> (\<not> (\<not> truthy (baseWebhookURL cfg) \<and> enableWebHook cfg) \<longrightarrow>
      (\<exists>rest. server_main cfg = AppListen (servicePort cfg) # rest
         \<and> (\<forall>c. ProcessExit c \<notin> set rest)))"
  by (auto simp: server_main_def listen_callback_def)

theorem server_main_exit_or_listen_witness:
  "server_main (load_config Map.empty) =
     [Log \<lparr> le_level = LError, le_fields = JUndefined, le_err = None,
            le_msg = ''BASE_WEBHOOK_URL environment variable is not set. Exiting...'' \<rparr>,
      ProcessExit 1]
   \<and> (\<exists>rest. server_main (load_config [''ENABLE_WEBHOOK'' \<mapsto> ''false'', ''PORT'' \<mapsto> ''8080''])
          = AppListen (JStr ''8080'') # rest)
   \<and> (\<exists>rest. server_main (load_config [''BASE_WEBHOOK_URL'' \<mapsto> ''http://localhost/hook''])
          = AppListen (JNum 3000) # rest)"
proof -
  let ?e1 = "[''ENABLE_WEBHOOK'' \<mapsto> ''false'', ''PORT'' \<mapsto> ''8080''] :: environ"
  let ?e2 = "[''BASE_WEBHOOK_URL'' \<mapsto> ''http://localhost/hook''] :: environ"
  have 0: "\<not> truthy (baseWebhookURL (load_config Map.empty)) \<and> enableWebHook (load_config Map.empty)"
    by code_simp
  have 1: "\<not> (\<not> truthy (baseWebhookURL (load_config ?e1)) \<and> enableWebHook (load_config ?e1))"
    by code_simp
  have p1: "servicePort (load_config ?e1) = JStr ''8080''"
    by code_simp
  have 2: "\<not> (\<not> truthy (baseWebhookURL (load_config ?e2)) \<and> enableWebHook (load_config ?e2))"
    by code_simp
  have p2: "servicePort (load_config ?e2) = JNum 3000"
    by code_simp
  from server_main_exit_or_listen [of "load_config Map.empty"] 0
  have a: "server_main (load_config Map.empty) =
     [Log \<lparr> le_level = LError, le_fields = JUndefined, le_err = None,
            le_msg = ''BASE_WEBHOOK_URL environment variable is not set. Exiting...'' \<rparr>,
      ProcessExit 1]" by blast
  from server_main_exit_or_listen [of "load_config ?e1"] 1 p1
  have b: "\<exists>rest. server_main (load_config ?e1) = AppListen (JStr ''8080'') # rest" by metis
  from server_main_exit_or_listen [of "load_config ?e2"] 2 p2
  have c: "\<exists>rest. server_main (load_config ?e2) = AppListen (JNum 3000) # rest" by metis
  from a b c show ?thesis by blast
qed

subsection \<open>The dispatcher's state stays well formed\<close>

lemma ids_fresh_step: "ids_fresh w \<Longrightarrow> ids_fresh (step cfg a w)"
proof (cases a)
  case (Emit u s d v)
  assume f: "ids_fresh w"
  then have "list_all (\<lambda>(j, c). j < Suc (length (http_posts w))) (in_flight w)"
    unfolding ids_fresh_def by (auto simp: list_all_iff)
  with Emit f show ?thesis
    by (simp add: ids_fresh_def triggerWebhook_def Let_def)
next
  case (Settle i out)
  assume "ids_fresh w"
  then show ?thesis using Settle
    by (cases "axios_settle out")
       (auto simp: ids_fresh_def http_settles_def webhook_chain_def promise_then_def
          promise_catch_def on_sent_def on_failed_def logger_log_def list_all_iff
          split: option.splits)
qed

lemma ids_fresh_run: "ids_fresh w \<Longrightarrow> ids_fresh (run cfg acts w)"
  by (induction acts arbitrary: w) (auto simp: ids_fresh_step)

lemma ids_fresh_reachable: "ids_fresh (run cfg acts world0)"
  by (rule ids_fresh_run) (simp add: ids_fresh_def world0_def)

lemma in_flight_settles:
  "in_flight (snd (http_settles i out w)) =
     (case map_of (in_flight w) i of
        None \<Rightarrow> in_flight w
      | Some c \<Rightarrow> filter (\<lambda>(j, _). j \<noteq> i) (in_flight w))"
  by (cases "axios_settle out")
     (auto simp: http_settles_def webhook_chain_def promise_then_def promise_catch_def
        on_sent_def on_failed_def logger_log_def split: option.splits)

lemma distinct_filter_fst:
  "distinct (map fst xs) \<Longrightarrow> distinct (map fst (filter P xs))"
  by (induction xs) auto

lemma well_formed_step: "well_formed w \<Longrightarrow> well_formed (step cfg a w)"
proof (cases a)
  case (Emit u s d v)
  assume wf: "well_formed w"
  then have "fst ` set (in_flight w) \<subseteq> {..< length (http_posts w)}"
    by (auto simp: well_formed_def ids_fresh_def list_all_iff)
  then have "length (http_posts w) \<notin> fst ` set (in_flight w)" by auto
  with wf Emit ids_fresh_step [of w cfg a] show ?thesis
    by (auto simp: well_formed_def triggerWebhook_def Let_def)
next
  case (Settle i out)
  assume wf: "well_formed w"
  with Settle ids_fresh_step [of w cfg a] show ?thesis
    by (auto simp: well_formed_def in_flight_settles distinct_filter_fst split: option.splits)
qed

lemma well_formed_run: "well_formed w \<Longrightarrow> well_formed (run cfg acts w)"
  by (induction acts arbitrary: w) (auto simp: well_formed_step)

lemma well_formed_reachable: "well_formed (run cfg acts world0)"
  by (rule well_formed_run) (simp add: well_formed_def ids_fresh_def world0_def)

lemma run_append: "run cfg (as @ bs) w = run cfg bs (run cfg as w)"
  by (induction as arbitrary: w) auto

lemma in_flight_stays:
  "(i, c) \<in> set (in_flight w) \<Longrightarrow> \<not> settles i a \<Longrightarrow> (i, c) \<in> set (in_flight (step cfg a w))"
  by (cases a) (auto simp: triggerWebhook_def Let_def in_flight_settles split: option.splits)

lemma in_flight_stays_run:
  "(i, c) \<in> set (in_flight w) \<Longrightarrow> list_all (\<lambda>a. \<not> settles i a) later \<Longrightarrow>
     (i, c) \<in> set (in_flight (run cfg later w))"
  by (induction later arbitrary: w) (auto simp: in_flight_stays)

lemma posts_of_in_flight_step:
  assumes "\<forall>(i, c) \<in> set (in_flight w). i < length (http_posts w) \<and> http_posts w ! i = webhook_post cfg c"
  shows "\<forall>(i, c) \<in> set (in_flight (step cfg a w)).
           i < length (http_posts (step cfg a w)) \<and> http_posts (step cfg a w) ! i = webhook_post cfg c"
proof (cases a)
  case (Emit u s d v)
  with assms show ?thesis
    by (auto simp: triggerWebhook_def Let_def nth_append)
next
  case (Settle i out)
  with assms show ?thesis
    by (auto simp: in_flight_settles http_posts_settles split: option.splits)
qed

lemma posts_of_in_flight_run:
  assumes "\<forall>(i, c) \<in> set (in_flight w). i < length (http_posts w) \<and> http_posts w ! i = webhook_post cfg c"
  shows "\<forall>(i, c) \<in> set (in_flight (run cfg acts w)).
           i < length (http_posts (run cfg acts w)) \<and> http_posts (run cfg acts w) ! i = webhook_post cfg c"
  using assms
proof (induction acts arbitrary: w)
  case Nil
  then show ?case by simp
next
  case (Cons a acts)
  from Cons.IH [OF posts_of_in_flight_step [OF Cons.prems]] show ?case by simp
qed

lemma settle_failed:
  assumes wf: "well_formed w"
    and inf: "(i, c) \<in> set (in_flight w)"
    and failed: "delivery_failed out"
  shows "\<exists>e. axios_settle out = Rejected e \<and>
     http_settles i out w =
       (Some (Fulfilled ()),
        w \<lparr> in_flight := filter (\<lambda>(j, _). j \<noteq> i) (in_flight w),
            logs := logs w @
              [\<lparr> le_level = LError,
                 le_fields = JObj [(''sessionId'', JStr (wc_sessionId c)),
                                   (''dataType'', JStr (wc_dataType c)),
                                   (''data'', js_or (wc_data c) (JStr []))],
                 le_err = Some e,
                 le_msg = ''Failed to send webhook message to '' @ wc_webhookURL c \<rparr>] \<rparr>)"
proof -
  from failed obtain e where e: "axios_settle out = Rejected e"
    using axios_settle_failed by blast
  from wf inf have look: "map_of (in_flight w) i = Some c"
    by (simp add: well_formed_def)
  show ?thesis
    using e look
    by (simp add: http_settles_def webhook_chain_rejected webhook_fields_def)
qed

text \<open>
  C2. Take any request that is in flight at any moment of any run of the process, and
  let its delivery fail (no response, or a status outside 200..299). Then the reactions
  log one error entry, for the event of that request, and nothing else happens: the
  request is no longer in flight, no request is made again, nothing else of the state
  changes, and the promise at the end of the chain is fulfilled, so no rejection reaches
  anyone. Every event handed to \<open>triggerWebhook\<close> while webhooks are enabled is such a
  request, from the call until its own completion.
\<close>

theorem triggerWebhook_failure_dropped:
  assumes failed: "delivery_failed out"
  shows "((i, c) \<in> set (in_flight (run cfg acts world0)) \<longrightarrow>
      (\<exists>e. axios_settle out = Rejected e \<and>
         http_settles i out (run cfg acts world0) =
           (Some (Fulfilled ()),
            (run cfg acts world0)
              \<lparr> in_flight := filter (\<lambda>(j, _). j \<noteq> i) (in_flight (run cfg acts world0)),
                logs := logs (run cfg acts world0) @
                  [\<lparr> le_level = LError,
                     le_fields = JObj [(''sessionId'', JStr (wc_sessionId c)),
                                       (''dataType'', JStr (wc_dataType c)),
                                       (''data'', js_or (wc_data c) (JStr []))],
                     le_err = Some e,
                     le_msg = ''Failed to send webhook message to '' @ wc_webhookURL c \<rparr>] \<rparr>))
      \<and> i < length (http_posts (run cfg acts world0))
      \<and> http_posts (run cfg acts world0) ! i = webhook_post cfg c)
   \<and> (enableWebHook cfg
        \<and> list_all (\<lambda>a. \<not> settles (length (http_posts (run cfg before world0))) a) later \<longrightarrow>
      (length (http_posts (run cfg before world0)),
       \<lparr> wc_webhookURL = webhookURL, wc_sessionId = sessionId,
         wc_dataType = dataType, wc_data = data \<rparr>)
        \<in> set (in_flight
                 (run cfg (before @ Emit webhookURL sessionId dataType data # later) world0)))"
proof (intro conjI impI)
  assume inf: "(i, c) \<in> set (in_flight (run cfg acts world0))"
  from settle_failed [OF well_formed_reachable inf failed]
  show "\<exists>e. axios_settle out = Rejected e \<and>
         http_settles i out (run cfg acts world0) =
           (Some (Fulfilled ()),
            (run cfg acts world0)
              \<lparr> in_flight := filter (\<lambda>(j, _). j \<noteq> i) (in_flight (run cfg acts world0)),
                logs := logs (run cfg acts world0) @
                  [\<lparr> le_level = LError,
                     le_fields = JObj [(''sessionId'', JStr (wc_sessionId c)),
                                       (''dataType'', JStr (wc_dataType c)),
                                       (''data'', js_or (wc_data c) (JStr []))],
                     le_err = Some e,
                     le_msg = ''Failed to send webhook message to '' @ wc_webhookURL c \<rparr>] \<rparr>)" .
  have "\<forall>(i, c) \<in> set (in_flight (run cfg acts world0)).
           i < length (http_posts (run cfg acts world0))
           \<and> http_posts (run cfg acts world0) ! i = webhook_post cfg c"
    by (rule posts_of_in_flight_run) (simp add: world0_def)
  with inf show "i < length (http_posts (run cfg acts world0))"
    and "http_posts (run cfg acts world0) ! i = webhook_post cfg c" by auto
next
  assume h: "enableWebHook cfg
        \<and> list_all (\<lambda>a. \<not> settles (length (http_posts (run cfg before world0))) a) later"
  let ?w = "run cfg before world0"
  let ?c = "\<lparr> wc_webhookURL = webhookURL, wc_sessionId = sessionId,
               wc_dataType = dataType, wc_data = data \<rparr>"
  from h have "(length (http_posts ?w), ?c)
      \<in> set (in_flight (triggerWebhook cfg webhookURL sessionId dataType data ?w))"
    by (simp add: triggerWebhook_def Let_def)
  from in_flight_stays_run [OF this, of later cfg] h
  show "(length (http_posts ?w), ?c)
        \<in> set (in_flight (run cfg (before @ Emit webhookURL sessionId dataType data # later) world0))"
    by (simp add: run_append)
qed


text \<open>
  Two events, and a 503 answer to the first while the second is still in flight: the
  error entry is the first event's, and the second request stays in flight.
\<close>

theorem triggerWebhook_failure_dropped_witness:
  "http_settles 0 (HttpStatus 503)
      (run (load_config [''BASE_WEBHOOK_URL'' \<mapsto> ''http://localhost/hook''])
         [Emit ''http://localhost/hook'' ''S1'' ''qr'' JUndefined,
          Emit ''http://localhost/hook'' ''S2'' ''message'' (JStr ''hello'')] world0) =
     (Some (Fulfilled ()),
      \<lparr> http_posts =
          [\<lparr> post_url = ''http://localhost/hook'',
              post_body = JObj [(''dataType'', JStr ''qr''), (''data'', JUndefined),
                                (''sessionId'', JStr ''S1'')],
              post_headers = [(''x-api-key'', JUndefined)] \<rparr>,
           \<lparr> post_url = ''http://localhost/hook'',
              post_body = JObj [(''dataType'', JStr ''message''), (''data'', JStr ''hello''),
                                (''sessionId'', JStr ''S2'')],
              post_headers = [(''x-api-key'', JUndefined)] \<rparr>],
        in_flight = [(1, \<lparr> wc_webhookURL = ''http://localhost/hook'', wc_sessionId = ''S2'',
                              wc_dataType = ''message'', wc_data = JStr ''hello'' \<rparr>)],
        logs = [\<lparr> le_level = LError,
                  le_fields = JObj [(''sessionId'', JStr ''S1''), (''dataType'', JStr ''qr''),
                                    (''data'', JStr [])],
                  le_err = Some (JsError ''Request failed with status code 503'' []),
                  le_msg = ''Failed to send webhook message to http://localhost/hook'' \<rparr>] \<rparr>)"
proof -
  let ?cfg = "load_config [''BASE_WEBHOOK_URL'' \<mapsto> ''http://localhost/hook'']"
  let ?acts = "[Emit ''http://localhost/hook'' ''S1'' ''qr'' JUndefined,
                Emit ''http://localhost/hook'' ''S2'' ''message'' (JStr ''hello'')]"
  let ?c1 = "\<lparr> wc_webhookURL = ''http://localhost/hook'', wc_sessionId = ''S1'',
                wc_dataType = ''qr'', wc_data = JUndefined \<rparr>"
  let ?c2 = "\<lparr> wc_webhookURL = ''http://localhost/hook'', wc_sessionId = ''S2'',
                wc_dataType = ''message'', wc_data = JStr ''hello'' \<rparr>"
  have en: "enableWebHook ?cfg" by code_simp
  have key: "globalApiKey ?cfg = JUndefined" by code_simp
  have w: "run ?cfg ?acts world0 =
     \<lparr> http_posts = [webhook_post ?cfg ?c1, webhook_post ?cfg ?c2],
       in_flight = [(0, ?c1), (1, ?c2)],
       logs = [] \<rparr>"
    using en by (simp add: world0_def triggerWebhook_def Let_def)
  have failed: "delivery_failed (HttpStatus 503)" by (simp add: delivery_failed_def)
  have rej: "axios_settle (HttpStatus 503) = Rejected (JsError ''Request failed with status code 503'' [])"
    by code_simp
  have d: "js_or JUndefined (JStr []) = JStr []" by (simp add: js_or_def)
  have inf: "(0, ?c1) \<in> set (in_flight (run ?cfg ?acts world0))"
    unfolding w by simp
  from triggerWebhook_failure_dropped [OF failed, where i = 0 and c = ?c1 and cfg = ?cfg
      and acts = ?acts] inf
  obtain e where e: "axios_settle (HttpStatus 503) = Rejected e"
    and r: "http_settles 0 (HttpStatus 503) (run ?cfg ?acts world0) =
           (Some (Fulfilled ()),
            (run ?cfg ?acts world0)
              \<lparr> in_flight := filter (\<lambda>(j, _). j \<noteq> 0) (in_flight (run ?cfg ?acts world0)),
                logs := logs (run ?cfg ?acts world0) @
                  [\<lparr> le_level = LError,
                     le_fields = JObj [(''sessionId'', JStr (wc_sessionId ?c1)),
                                       (''dataType'', JStr (wc_dataType ?c1)),
                                       (''data'', js_or (wc_data ?c1) (JStr []))],
                     le_err = Some e,
                     le_msg = ''Failed to send webhook message to '' @ wc_webhookURL ?c1 \<rparr>] \<rparr>)"
    by blast
  from e rej have "e = JsError ''Request failed with status code 503'' []" by simp
  with r show ?thesis
    unfolding w by (simp add: d key webhook_post_def)
qed

subsection \<open>Waiting for a nested object\<close>

lemma value_at_falsy: "\<not> truthy v \<Longrightarrow> keys \<noteq> [] \<Longrightarrow> value_at get v keys = JUndefined"
  by (cases keys) simp_all

lemma value_at_undefined: "value_at get JUndefined keys = JUndefined"
  by (cases keys) simp_all

lemma foldl_value_at:
  "foldl (\<lambda>obj key. if truthy obj then get obj key else JUndefined) v keys = value_at get v keys"
  by (induction keys arbitrary: v) (simp_all add: value_at_undefined)

text \<open>The walk over the split path is the value at the path with these segments.\<close>

lemma nested_value_at:
  "keys \<noteq> [] \<Longrightarrow> list_all (\<lambda>key. CHR ''.'' \<notin> set key) keys \<Longrightarrow>
     nested get v (join_with (CHR ''.'') keys) = value_at get v keys"
  by (simp add: nested_def split_on_join_with foldl_value_at)

text \<open>Every path is the join of its segments, and no segment holds a dot.\<close>

lemma path_segments:
  "\<exists>keys. keys \<noteq> [] \<and> list_all (\<lambda>key. CHR ''.'' \<notin> set key) keys
     \<and> nestedPath = join_with (CHR ''.'') keys"
  by (intro exI [of _ "split_on (CHR ''.'') nestedPath"])
     (simp add: split_on_nonempty join_with_split_on list_all_iff split_on_sep_free)

lemma checkObject_settles:
  assumes adv: "advancing timer"
  shows "\<exists>n.
     checkObject get rootObj timer nestedPath start (Finite m) interval k
        (poll_time timer interval first k) =
       Some (if truthy (nested get (rootObj n) nestedPath) then WaitResult n (Fulfilled ()) []
             else WaitResult n (Rejected timeout_error) [timeout_log])
     \<and> k \<le> n
     \<and> (\<forall>j. k \<le> j \<and> j < n \<longrightarrow>
           \<not> truthy (nested get (rootObj j) nestedPath)
           \<and> of_int (poll_time timer interval first j - start) \<le> m)
     \<and> (truthy (nested get (rootObj n) nestedPath)
          \<or> m < of_int (poll_time timer interval first n - start))"
proof (induction "nat (start + \<lfloor>m\<rfloor> + 1 - poll_time timer interval first k)" arbitrary: k
         rule: less_induct)
  case less
  let ?t = "poll_time timer interval first k"
  let ?found = "\<lambda>j. truthy (nested get (rootObj j) nestedPath)"
  show ?case
  proof (cases "?found k")
    case True
    then have "checkObject get rootObj timer nestedPath start (Finite m) interval k ?t
                 = Some (WaitResult k (Fulfilled ()) [])"
      by (subst checkObject.simps) simp
    with True show ?thesis
      by (intro exI [of _ k]) auto
  next
    case nf: False
    show ?thesis
    proof (cases "m < of_int (?t - start)")
      case True
      with nf have "checkObject get rootObj timer nestedPath start (Finite m) interval k ?t
                 = Some (WaitResult k (Rejected timeout_error) [timeout_log])"
        by (subst checkObject.simps) simp
      with True nf show ?thesis
        by (intro exI [of _ k]) auto
    next
      case ne: False
      have step: "checkObject get rootObj timer nestedPath start (Finite m) interval k ?t
                 = checkObject get rootObj timer nestedPath start (Finite m) interval (Suc k)
                     (poll_time timer interval first (Suc k))"
        using nf ne by (subst checkObject.simps) simp
      from adv have "?t < poll_time timer interval first (Suc k)"
        by (simp add: advancing_def)
      moreover from ne have "?t - start \<le> \<lfloor>m\<rfloor>"
        by (simp add: le_floor_iff)
      ultimately have "nat (start + \<lfloor>m\<rfloor> + 1 - poll_time timer interval first (Suc k))
                     < nat (start + \<lfloor>m\<rfloor> + 1 - ?t)" by linarith
      from less [OF this] obtain n where
        r: "checkObject get rootObj timer nestedPath start (Finite m) interval (Suc k)
              (poll_time timer interval first (Suc k)) =
             Some (if ?found n then WaitResult n (Fulfilled ()) []
                   else WaitResult n (Rejected timeout_error) [timeout_log])"
        and kn: "Suc k \<le> n"
        and before: "\<forall>j. Suc k \<le> j \<and> j < n \<longrightarrow>
           \<not> ?found j \<and> of_int (poll_time timer interval first j - start) \<le> m"
        and at: "?found n \<or> m < of_int (poll_time timer interval first n - start)"
        by blast
      have "\<forall>j. k \<le> j \<and> j < n \<longrightarrow>
           \<not> ?found j \<and> of_int (poll_time timer interval first j - start) \<le> m"
      proof (intro allI impI)
        fix j assume "k \<le> j \<and> j < n"
        then have "j = k \<or> (Suc k \<le> j \<and> j < n)" by auto
        then show "\<not> ?found j \<and> of_int (poll_time timer interval first j - start) \<le> m"
          using nf ne before by auto
      qed
      with r kn at step show ?thesis
        by (intro exI [of _ n]) simp
    qed
  qed
qed

lemma advancing_punctual: "advancing punctual"
  by (auto simp: advancing_def punctual_def timer_delay_def split: jsnum.splits)

text \<open>
  With a limit that no elapsed time exceeds, a loop that never finds the value never
  ends.
\<close>

lemma checkObject_pending:
  assumes r: "checkObject get rootObj timer nestedPath start maxWaitTime interval k now = Some res"
  shows "\<not> ((maxWaitTime = PosInfinity \<or> maxWaitTime = NaN)
            \<and> (\<forall>j. \<not> truthy (nested get (rootObj j) nestedPath)))"
  apply (rule checkObject.raw_induct [where P = "\<lambda>get rootObj timer nestedPath start maxWaitTime interval k now res.
       \<not> ((maxWaitTime = PosInfinity \<or> maxWaitTime = NaN)
            \<and> (\<forall>j. \<not> truthy (nested get (rootObj j) nestedPath)))", OF _ r])
  subgoal premises p for S get rootObj timer nestedPath start maxWaitTime interval k now res
  proof
    assume h: "(maxWaitTime = PosInfinity \<or> maxWaitTime = NaN)
            \<and> (\<forall>j. \<not> truthy (nested get (rootObj j) nestedPath))"
    then have "\<not> js_gt (now - start) maxWaitTime" by auto
    with h p(2) have "S get rootObj timer nestedPath start maxWaitTime interval (Suc k)
          (timer interval k now) = Some res"
      by simp
    from p(1) [OF this] h show False by blast
  qed
  done

text \<open>
  The promise can stay pending for ever: with \<open>maxWaitTime\<close> \<open>Infinity\<close> or \<open>NaN\<close>
  the test \<open>Date.now() - start > maxWaitTime\<close> is never true, and when the property
  never appears each poll schedules the next one.
\<close>

theorem waitForNestedObject_unbounded_counterexample:
  "advancing punctual
   \<and> waitForNestedObject js_get never_filled punctual 0 0 ''pupPage.mainFrame''
       (Some PosInfinity) None = None
   \<and> waitForNestedObject js_get never_filled punctual 0 0 ''pupPage.mainFrame''
       (Some NaN) None = None"
proof -
  have nf: "\<forall>j. \<not> truthy (nested js_get (never_filled j) ''pupPage.mainFrame'')"
    by (simp add: never_filled_def nested_def)
  have pending: "waitForNestedObject js_get never_filled punctual 0 0 ''pupPage.mainFrame''
          (Some limit) None = None" if "limit = PosInfinity \<or> limit = NaN" for limit
  proof (cases "waitForNestedObject js_get never_filled punctual 0 0 ''pupPage.mainFrame''
                  (Some limit) None")
    case None
    then show ?thesis .
  next
    case (Some res)
    then have "checkObject js_get never_filled punctual ''pupPage.mainFrame'' 0 limit
                 (Finite 100) 0 0 = Some res"
      by (simp add: waitForNestedObject_def or_default_def)
    from checkObject_pending [OF this] nf that show ?thesis by blast
  qed
  from pending [of PosInfinity] pending [of NaN] advancing_punctual show ?thesis by blast
qed

text \<open>
  C7, amended. Take any object, any property read, any path (given as the join of its
  segments) and any interval, and let the runtime run each scheduled poll at a later
  clock reading. When \<open>maxWaitTime\<close> is omitted or a finite number \<open>m\<close>, the promise
  settles at the first poll that finds the value at the path truthy or reads a clock
  more than \<open>m\<close> after the start: it is fulfilled if that poll finds the value truthy,
  and otherwise rejected with the error \<open>Timeout waiting for nested object\<close>, after
  logging. When \<open>maxWaitTime\<close> is \<open>-Infinity\<close> it settles in the same way at the
  first poll.
\<close>

theorem waitForNestedObject_settles:
  assumes adv: "advancing timer"
    and segs: "keys \<noteq> []" "list_all (\<lambda>key. CHR ''.'' \<notin> set key) keys"
  shows
   "(or_default (Finite 10000) maxWaitTime = Finite m \<longrightarrow>
      (\<exists>n. waitForNestedObject get rootObj timer start first (join_with (CHR ''.'') keys)
               maxWaitTime interval =
             Some (if truthy (value_at get (rootObj n) keys) then WaitResult n (Fulfilled ()) []
                   else WaitResult n (Rejected timeout_error) [timeout_log])
          \<and> (\<forall>j < n. \<not> truthy (value_at get (rootObj j) keys)
                \<and> of_int (poll_time timer (or_default (Finite 100) interval) first j - start) \<le> m)
          \<and> (truthy (value_at get (rootObj n) keys)
               \<or> m < of_int (poll_time timer (or_default (Finite 100) interval) first n - start))))
    \<and> (maxWaitTime = Some NegInfinity \<longrightarrow>
        waitForNestedObject get rootObj timer start first (join_with (CHR ''.'') keys)
           maxWaitTime interval =
          Some (if truthy (value_at get (rootObj 0) keys) then WaitResult 0 (Fulfilled ()) []
                else WaitResult 0 (Rejected timeout_error) [timeout_log]))"
proof (intro conjI impI)
  assume lim: "or_default (Finite 10000) maxWaitTime = Finite m"
  from checkObject_settles [OF adv, where get = get and rootObj = rootObj
      and nestedPath = "join_with (CHR ''.'') keys" and start = start and m = m
      and interval = "or_default (Finite 100) interval" and k = 0 and first = first]
  show "\<exists>n. waitForNestedObject get rootObj timer start first (join_with (CHR ''.'') keys)
               maxWaitTime interval =
             Some (if truthy (value_at get (rootObj n) keys) then WaitResult n (Fulfilled ()) []
                   else WaitResult n (Rejected timeout_error) [timeout_log])
          \<and> (\<forall>j < n. \<not> truthy (value_at get (rootObj j) keys)
                \<and> of_int (poll_time timer (or_default (Finite 100) interval) first j - start) \<le> m)
          \<and> (truthy (value_at get (rootObj n) keys)
               \<or> m < of_int (poll_time timer (or_default (Finite 100) interval) first n - start))"
    by (simp add: waitForNestedObject_def lim nested_value_at [OF segs])
next
  assume neg: "maxWaitTime = Some NegInfinity"
  show "waitForNestedObject get rootObj timer start first (join_with (CHR ''.'') keys)
           maxWaitTime interval =
          Some (if truthy (value_at get (rootObj 0) keys) then WaitResult 0 (Fulfilled ()) []
                else WaitResult 0 (Rejected timeout_error) [timeout_log])"
    unfolding waitForNestedObject_def
    by (subst checkObject.simps) (simp add: neg or_default_def nested_value_at [OF segs])
qed

lemma poll_time_punctual:
  "poll_time punctual (Finite 100) first j = first + 100 * int j"
  by (induction j) (simp_all add: punctual_def timer_delay_def)

text \<open>
  Five runs with a punctual timer and the default interval of 100 ms, on the path
  \<open>pupPage.mainFrame\<close>: the property appears at the third poll, under an object that
  was there before; it never appears and the limit is 300 ms, so that the fourth poll,
  at exactly 300 ms, goes on and the fifth rejects; it never appears and the limit is
  250.5 ms, so that the fourth poll rejects; the first poll already reads a clock 500 ms
  after the start; and the limit is \<open>-Infinity\<close>.
\<close>

theorem waitForNestedObject_settles_witness:
  "waitForNestedObject js_get filled_at_2 punctual 1000 1000 ''pupPage.mainFrame'' None None
     = Some (WaitResult 2 (Fulfilled ()) [])
   \<and> \<not> truthy (value_at js_get (filled_at_2 1) [''pupPage'', ''mainFrame''])
   \<and> waitForNestedObject js_get never_filled punctual 1000 1000 ''pupPage.mainFrame''
       (Some (Finite 300)) None
     = Some (WaitResult 4 (Rejected timeout_error) [timeout_log])
   \<and> poll_time punctual (Finite 100) 1000 3 - 1000 = 300
   \<and> poll_time punctual (Finite 100) 1000 4 - 1000 = 400
   \<and> waitForNestedObject js_get never_filled punctual 1000 1000 ''pupPage.mainFrame''
       (Some (Finite (501 / 2))) None
     = Some (WaitResult 3 (Rejected timeout_error) [timeout_log])
   \<and> waitForNestedObject js_get never_filled punctual 1000 1500 ''pupPage.mainFrame''
       (Some (Finite 300)) None
     = Some (WaitResult 0 (Rejected timeout_error) [timeout_log])
   \<and> waitForNestedObject js_get never_filled punctual 1000 1000 ''pupPage.mainFrame''
       (Some NegInfinity) None
     = Some (WaitResult 0 (Rejected timeout_error) [timeout_log])"
proof -
  let ?keys = "[''pupPage'', ''mainFrame'']"
  have path: "join_with (CHR ''.'') ?keys = ''pupPage.mainFrame''" by simp
  have segs: "?keys \<noteq> []" "list_all (\<lambda>key. CHR ''.'' \<notin> set key) ?keys" by simp_all
  have iv: "or_default (Finite 100) None = Finite 100" by (simp add: or_default_def)
  have filled: "truthy (value_at js_get (filled_at_2 j) ?keys) \<longleftrightarrow> 2 \<le> j" for j
    by (simp add: filled_at_2_def)
  have never: "\<not> truthy (value_at js_get (never_filled j) ?keys)" for j
    by (simp add: never_filled_def)
  have elapsed: "poll_time punctual (or_default (Finite 100) None) 1000 j - 1000 = 100 * int j" for j
    by (simp add: iv poll_time_punctual)
  note inst = waitForNestedObject_settles [OF advancing_punctual segs, unfolded path]

  txt \<open>the property appears at the third poll\<close>
  have "or_default (Finite 10000) None = Finite 10000" by (simp add: or_default_def)
  with inst [where get = js_get and rootObj = filled_at_2 and start = 1000 and first = 1000
      and maxWaitTime = None and interval = None and m = 10000]
  obtain n where
    r: "waitForNestedObject js_get filled_at_2 punctual 1000 1000 ''pupPage.mainFrame'' None None =
          Some (if truthy (value_at js_get (filled_at_2 n) ?keys)
                then WaitResult n (Fulfilled ()) []
                else WaitResult n (Rejected timeout_error) [timeout_log])"
    and before: "\<forall>j < n. \<not> truthy (value_at js_get (filled_at_2 j) ?keys)
                \<and> real_of_int (poll_time punctual (or_default (Finite 100) None) 1000 j - 1000) \<le> 10000"
    and at: "truthy (value_at js_get (filled_at_2 n) ?keys)
               \<or> 10000 < real_of_int (poll_time punctual (or_default (Finite 100) None) 1000 n - 1000)"
    by blast
  from before filled have n2: "n \<le> 2" by (meson leI order_refl)
  then have "100 * int n \<le> 200" by simp
  then have "real_of_int (100 * int n) \<le> 200" by linarith
  then have "\<not> 10000 < real_of_int (poll_time punctual (or_default (Finite 100) None) 1000 n - 1000)"
    by (simp only: elapsed)
  with at filled n2 have "n = 2" by auto
  with r filled have a: "waitForNestedObject js_get filled_at_2 punctual 1000 1000
      ''pupPage.mainFrame'' None None = Some (WaitResult 2 (Fulfilled ()) [])"
    by simp
  from filled [of 1] have b: "\<not> truthy (value_at js_get (filled_at_2 1) ?keys)" by simp

  txt \<open>the property never appears: the fifth poll is the first after more than 300 ms\<close>
  have "or_default (Finite 10000) (Some (Finite 300)) = Finite 300" by (simp add: or_default_def)
  with inst [where get = js_get and rootObj = never_filled and start = 1000 and first = 1000
      and maxWaitTime = "Some (Finite 300)" and interval = None and m = 300]
  obtain k where
    r: "waitForNestedObject js_get never_filled punctual 1000 1000 ''pupPage.mainFrame''
          (Some (Finite 300)) None =
          Some (if truthy (value_at js_get (never_filled k) ?keys)
                then WaitResult k (Fulfilled ()) []
                else WaitResult k (Rejected timeout_error) [timeout_log])"
    and before: "\<forall>j < k. \<not> truthy (value_at js_get (never_filled j) ?keys)
                \<and> real_of_int (poll_time punctual (or_default (Finite 100) None) 1000 j - 1000) \<le> 300"
    and at: "truthy (value_at js_get (never_filled k) ?keys)
               \<or> 300 < real_of_int (poll_time punctual (or_default (Finite 100) None) 1000 k - 1000)"
    by blast
  from at never have "300 < real_of_int (100 * int k)" by (simp only: elapsed) simp
  then have "300 < 100 * int k" by linarith
  then have k4: "4 \<le> k" by linarith
  have "\<not> 4 < k"
  proof
    assume "4 < k"
    with before
    have "real_of_int (poll_time punctual (or_default (Finite 100) None) 1000 4 - 1000) \<le> 300"
      by blast
    then show False by (simp add: elapsed)
  qed
  with k4 have "k = 4" by simp
  with r never have c: "waitForNestedObject js_get never_filled punctual 1000 1000
      ''pupPage.mainFrame'' (Some (Finite 300)) None
      = Some (WaitResult 4 (Rejected timeout_error) [timeout_log])"
    by simp
  have d: "poll_time punctual (Finite 100) 1000 3 - 1000 = 300"
    and e: "poll_time punctual (Finite 100) 1000 4 - 1000 = 400"
    by (simp_all add: poll_time_punctual)

  txt \<open>the limit is not a whole number: the fourth poll is the first after more than 250.5 ms\<close>
  have "or_default (Finite 10000) (Some (Finite (501 / 2))) = Finite (501 / 2)"
    by (simp add: or_default_def)
  with inst [where get = js_get and rootObj = never_filled and start = 1000 and first = 1000
      and maxWaitTime = "Some (Finite (501 / 2))" and interval = None and m = "501 / 2"]
  obtain q where
    r: "waitForNestedObject js_get never_filled punctual 1000 1000 ''pupPage.mainFrame''
          (Some (Finite (501 / 2))) None =
          Some (if truthy (value_at js_get (never_filled q) ?keys)
                then WaitResult q (Fulfilled ()) []
                else WaitResult q (Rejected timeout_error) [timeout_log])"
    and before: "\<forall>j < q. \<not> truthy (value_at js_get (never_filled j) ?keys)
                \<and> real_of_int (poll_time punctual (or_default (Finite 100) None) 1000 j - 1000) \<le> 501 / 2"
    and at: "truthy (value_at js_get (never_filled q) ?keys)
               \<or> 501 / 2 < real_of_int (poll_time punctual (or_default (Finite 100) None) 1000 q - 1000)"
    by blast
  from at never have "501 / 2 < real_of_int (100 * int q)" by (simp only: elapsed) simp
  then have "250 < 100 * int q" by linarith
  then have q3: "3 \<le> q" by linarith
  have "\<not> 3 < q"
  proof
    assume "3 < q"
    with before
    have "real_of_int (poll_time punctual (or_default (Finite 100) None) 1000 3 - 1000) \<le> 501 / 2"
      by blast
    then show False by (simp add: elapsed)
  qed
  with q3 have "q = 3" by simp
  with r never have c': "waitForNestedObject js_get never_filled punctual 1000 1000
      ''pupPage.mainFrame'' (Some (Finite (501 / 2))) None
      = Some (WaitResult 3 (Rejected timeout_error) [timeout_log])"
    by simp

  txt \<open>the first poll already reads a clock 500 ms later\<close>
  have "or_default (Finite 10000) (Some (Finite 300)) = Finite 300" by (simp add: or_default_def)
  with inst [where get = js_get and rootObj = never_filled and start = 1000 and first = 1500
      and maxWaitTime = "Some (Finite 300)" and interval = None and m = 300]
  obtain l where
    r: "waitForNestedObject js_get never_filled punctual 1000 1500 ''pupPage.mainFrame''
          (Some (Finite 300)) None =
          Some (if truthy (value_at js_get (never_filled l) ?keys)
                then WaitResult l (Fulfilled ()) []
                else WaitResult l (Rejected timeout_error) [timeout_log])"
    and before: "\<forall>j < l. \<not> truthy (value_at js_get (never_filled j) ?keys)
                \<and> real_of_int (poll_time punctual (or_default (Finite 100) None) 1500 j - 1000) \<le> 300"
    by blast
  have "l = 0"
  proof (rule ccontr)
    assume "l \<noteq> 0"
    then have "0 < l" by simp
    with before
    have "real_of_int (poll_time punctual (or_default (Finite 100) None) 1500 0 - 1000) \<le> 300"
      by blast
    then show False by simp
  qed
  with r never have f: "waitForNestedObject js_get never_filled punctual 1000 1500
      ''pupPage.mainFrame'' (Some (Finite 300)) None
      = Some (WaitResult 0 (Rejected timeout_error) [timeout_log])"
    by simp

  txt \<open>a limit below every elapsed time\<close>
  from inst [where get = js_get and rootObj = never_filled and start = 1000 and first = 1000
      and maxWaitTime = "Some NegInfinity" and interval = None and m = 0] never
  have g: "waitForNestedObject js_get never_filled punctual 1000 1000
      ''pupPage.mainFrame'' (Some NegInfinity) None
      = Some (WaitResult 0 (Rejected timeout_error) [timeout_log])"
    by simp
  from a b c d e c' f g show ?thesis by blast
qed

subsection \<open>Decoding base64 in chunks\<close>

text \<open>Groups of four values decode independently of what follows them.\<close>

lemma decode_groups_append:
  "length xs mod 4 = 0 \<Longrightarrow> decode_groups (xs @ ys) = decode_groups xs @ decode_groups ys"
proof (induction xs rule: decode_groups.induct)
  case (1 a b c d rest)
  then show ?case by simp
qed simp_all

lemma all_pad_is_base64: "list_all (\<lambda>d. d = CHR ''='') s \<Longrightarrow> is_base64 s"
  by (cases s) auto

lemma all_pad_sextets: "list_all (\<lambda>d. d = CHR ''='') s \<Longrightarrow> sextets s = []"
  by (cases s) auto

lemma is_base64_drop: "is_base64 s \<Longrightarrow> is_base64 (drop n s)"
proof (induction s arbitrary: n)
  case Nil
  show ?case by simp
next
  case (Cons c cs)
  show ?case
  proof (cases n)
    case 0
    with Cons.prems show ?thesis by simp
  next
    case (Suc k)
    show ?thesis
    proof (cases "c = CHR ''=''")
      case True
      with Cons.prems have "list_all (\<lambda>d. d = CHR ''='') (drop k cs)"
        by (auto simp: list_all_iff dest: in_set_dropD)
      with Suc show ?thesis by (simp add: all_pad_is_base64)
    next
      case False
      with Cons Suc show ?thesis by simp
    qed
  qed
qed

text \<open>A prefix without padding contributes one sextet for each character.\<close>

lemma sextets_split:
  "is_base64 s \<Longrightarrow>
     (CHR ''='' \<notin> set (take n s) \<longrightarrow>
        sextets s = sextets (take n s) @ sextets (drop n s)
        \<and> length (sextets (take n s)) = min n (length s))
   \<and> (CHR ''='' \<in> set (take n s) \<longrightarrow>
        sextets (take n s) = sextets s \<and> sextets (drop n s) = [])"
proof (induction s arbitrary: n)
  case Nil
  show ?case by simp
next
  case (Cons c cs)
  show ?case
  proof (cases n)
    case 0
    then show ?thesis by simp
  next
    case (Suc k)
    show ?thesis
    proof (cases "c = CHR ''=''")
      case True
      with Cons.prems have "list_all (\<lambda>d. d = CHR ''='') (drop k cs)"
        by (auto simp: list_all_iff dest: in_set_dropD)
      with True Suc show ?thesis by (simp add: all_pad_sextets)
    next
      case False
      with Cons.prems obtain v where v: "unbase64 c = Some v" and cs: "is_base64 cs"
        by auto
      from Cons.IH [OF cs, of k] False v Suc show ?thesis by auto
    qed
  qed
qed

lemma chunk_then_rest:
  assumes "is_base64 s" and "n mod 4 = 0"
  shows "buffer_from_base64 (take n s) @ buffer_from_base64 (drop n s) = buffer_from_base64 s"
proof (cases "CHR ''='' \<in> set (take n s)")
  case True
  with sextets_split [OF assms(1), of n] show ?thesis
    by (simp add: buffer_from_base64_def)
next
  case False
  with sextets_split [OF assms(1), of n]
  have sp: "sextets s = sextets (take n s) @ sextets (drop n s)"
    and len: "length (sextets (take n s)) = min n (length s)" by auto
  show ?thesis
  proof (cases "n \<le> length s")
    case True
    with len assms(2) have "length (sextets (take n s)) mod 4 = 0" by simp
    then show ?thesis
      by (simp add: buffer_from_base64_def sp decode_groups_append)
  next
    case False
    then show ?thesis by (simp add: buffer_from_base64_def)
  qed
qed

lemma decodeBase64_from_concat:
  "is_base64 s \<Longrightarrow> concat (decodeBase64_from i s) = buffer_from_base64 (drop i s)"
proof (induction i s rule: decodeBase64_from.induct)
  case (1 i s)
  show ?case
  proof (cases "i < length s")
    case True
    have b: "is_base64 (drop i s)" using 1(2) by (rule is_base64_drop)
    have "chunkSize mod 4 = 0" by (simp add: chunkSize_def)
    from chunk_then_rest [OF b this]
    have "buffer_from_base64 (take chunkSize (drop i s))
            @ buffer_from_base64 (drop (i + chunkSize) s) = buffer_from_base64 (drop i s)"
      by (simp add: add.commute)
    with 1(1) [OF True 1(2)] True show ?thesis
      by (subst decodeBase64_from.simps) (simp add: slice_def)
  next
    case False
    then show ?thesis
      by (subst decodeBase64_from.simps) (simp add: buffer_from_base64_def)
  qed
qed

text \<open>
  C9. For every base64 string, the buffers that \<open>decodeBase64\<close> yields, concatenated,
  are the buffer that decoding the whole string gives: every chunk but the last has 1024
  characters, a multiple of four, so no group of four is cut.
\<close>

theorem decodeBase64_concat:
  "is_base64 s \<Longrightarrow> concat (decodeBase64 s) = buffer_from_base64 s"
  by (simp add: decodeBase64_def decodeBase64_from_concat)

text \<open>
  A string of 1028 characters, \<open>QUJD\<close> 257 times: the generator yields two buffers,
  the first from the 1024 characters of the first chunk and the second, \<open>ABC\<close>, from
  the last four.
\<close>

lemma is_base64_repeat: "is_base64 (concat (replicate n ''QUJD''))"
  by (induction n) (simp_all add: unbase64_def)

lemma sextets_repeat_nopad: "CHR ''='' \<notin> set (concat (replicate n ''QUJD''))"
  by (induction n) simp_all

lemma length_repeat: "length (concat (replicate n ''QUJD'')) = 4 * n"
  by (induction n) simp_all

lemma repeat_add:
  "concat (replicate (n + m) ''QUJD'') = concat (replicate n ''QUJD'') @ concat (replicate m ''QUJD'')"
  by (simp add: replicate_add)

theorem decodeBase64_concat_witness:
  "length (concat (replicate 257 ''QUJD'')) = 1028
   \<and> is_base64 (concat (replicate 257 ''QUJD''))
   \<and> decodeBase64 (concat (replicate 257 ''QUJD'')) =
       [buffer_from_base64 (concat (replicate 256 ''QUJD'')), buffer_from_base64 ''QUJD'']
   \<and> buffer_from_base64 ''QUJD'' = [0x41, 0x42, 0x43]
   \<and> buffer_from_base64 (concat (replicate 256 ''QUJD'')) @ [0x41, 0x42, 0x43] =
       buffer_from_base64 (concat (replicate 257 ''QUJD''))"
proof -
  let ?s = "concat (replicate 257 ''QUJD'')"
  have len: "length ?s = 1028"
    by (simp only: length_repeat)
  have v: "is_base64 ?s" by (rule is_base64_repeat)
  have one: "concat (replicate 1 ''QUJD'') = ''QUJD''"
    by simp
  have "(257::nat) = 256 + 1" by simp
  then have "?s = concat (replicate (256 + 1) ''QUJD'')" by (rule arg_cong)
  then have split: "?s = concat (replicate 256 ''QUJD'') @ ''QUJD''"
    by (simp only: repeat_add one)
  have len256: "length (concat (replicate 256 ''QUJD'')) = 1024"
    by (simp only: length_repeat)
  have t: "take 1024 ?s = concat (replicate 256 ''QUJD'')"
    and d: "drop 1024 ?s = ''QUJD''"
    using len256 by (simp_all add: split)
  have chunks: "decodeBase64 ?s =
       [buffer_from_base64 (concat (replicate 256 ''QUJD'')), buffer_from_base64 ''QUJD'']"
    unfolding decodeBase64_def
    apply (subst decodeBase64_from.simps)
    apply (subst decodeBase64_from.simps)
    apply (subst decodeBase64_from.simps)
    apply (simp only: len chunkSize_def slice_def)
    apply (simp add: t d len)
    done
  have abc: "buffer_from_base64 ''QUJD'' = [0x41, 0x42, 0x43]"
    by code_simp
  from decodeBase64_concat [OF v] chunks abc
  have "buffer_from_base64 (concat (replicate 256 ''QUJD'')) @ [0x41, 0x42, 0x43] =
       buffer_from_base64 ?s" by simp
  with len v chunks abc show ?thesis by blast
qed

subsection \<open>The channel handlers\<close>

















subsection \<open>Every response is well formed\<close>














subsection \<open>No failure of the driver is swallowed\<close>

lemma reports_no_calls: "snd m = [] \<Longrightarrow> reports client m"
  by (simp add: reports_def)












subsection \<open>No stack trace is sent\<close>










subsection \<open>What a success response stands for\<close>




subsection \<open>Failures inside the body of a handler\<close>







subsection \<open>What the handlers answer\<close>










end
